theory Spec2Isabelle
  imports Complex_Main "HOL-Library.Word" "HOL-Library.Log_Nat"
begin

section \<open>Bytes, exceptions and containers of the Python runtime\<close>

text \<open>
  The repository holds two acquisition programs. \<^verbatim>\<open>HZanalise.py\<close> is a console monitor: it
  accumulates serial bytes in a \<^verbatim>\<open>bytearray\<close>, frames them into 4-byte samples and
  estimates the sampling rate over a window of timestamps. \<^verbatim>\<open>analisesensordepeso.py\<close> is a
  Qt window: after a settle delay it frames each serial read on its own, keeps a rolling
  display buffer and writes every sample to a rotating CSV file.

  Bytes are 8-bit words, Python integers are \<open>int\<close>, and every exception the code
  catches is a value of \<open>exn\<close>. Readings of \<^verbatim>\<open>time.time()\<close> are real numbers (a double
  is one), and the arithmetic the code does on them is the arithmetic of doubles, below.
\<close>

type_synonym byte = "8 word"

datatype exn = StructError | SerialException | OSError | ValueError | AttributeError

definition SAMPLE_SIZE :: nat where
  "SAMPLE_SIZE = 4"

text \<open>
  \<^verbatim>\<open>collections.deque(maxlen=n).append(x)\<close>: the item goes to the right end, and when the
  deque is then longer than \<open>maxlen\<close> the leftmost item is removed.
\<close>

definition deque_append :: "nat \<Rightarrow> 'a list \<Rightarrow> 'a \<Rightarrow> 'a list" where
  "deque_append maxlen d x = (let d' = d @ [x] in if length d' > maxlen then tl d' else d')"

text \<open>
  \<^verbatim>\<open>struct.unpack('<i', s)[0]\<close>: \<^verbatim>\<open>struct.error\<close> unless \<open>s\<close> has exactly four bytes;
  otherwise the bytes read least significant first, as a two's-complement 32-bit integer.
\<close>

fun le_uint :: "byte list \<Rightarrow> int" where
  "le_uint [] = 0"
| "le_uint (b # bs) = uint b + 256 * le_uint bs"

definition unpack_i :: "byte list \<Rightarrow> exn + int" where
  "unpack_i s =
     (if length s \<noteq> 4 then Inl StructError
      else (let u = le_uint s in Inr (if u < 2 ^ 31 then u else u - 2 ^ 32)))"

text \<open>
  Python floats are IEEE 754 doubles: the result of a subtraction or a division is the
  exact result rounded to the nearest number with a 53-bit significand, ties to the even
  one. \<open>expo\<close> is the binary exponent of a positive number, \<open>rd\<close> the rounding.
  (Overflow and subnormal numbers are left out: the program's values are seconds since
  1970, their differences and sample rates.) Comparisons of floats are exact.
\<close>

definition pow2 :: "int \<Rightarrow> real" where
  "pow2 q = (if q \<ge> 0 then 2 ^ nat q else 1 / 2 ^ nat (- q))"

definition round_even :: "real \<Rightarrow> int" where
  "round_even y =
     (let f = \<lfloor>y\<rfloor>; r = y - of_int f
      in if r < 1 / 2 then f else if r > 1 / 2 then f + 1 else if even f then f else f + 1)"

definition expo :: "real \<Rightarrow> int" where
  "expo x = (if x \<ge> 1 then bitlen \<lfloor>x\<rfloor> - 1 else - bitlen (\<lceil>1 / x\<rceil> - 1))"

definition rd :: "real \<Rightarrow> real" where
  "rd x =
     (if x = 0 then 0
      else (let a = \<bar>x\<bar>; q = expo a - 52
            in sgn x * of_int (round_even (a / pow2 q)) * pow2 q))"

definition fsub :: "real \<Rightarrow> real \<Rightarrow> real" where
  "fsub a b = rd (a - b)"

definition fdiv :: "real \<Rightarrow> real \<Rightarrow> real" where
  "fdiv a b = rd (a / b)"

section \<open>HZanalise.py: the framing loop and the rate window\<close>

text \<open>
  The local variables of \<^verbatim>\<open>main\<close> that the loop reads and writes. \<open>clock\<close> counts the
  readings of \<^verbatim>\<open>time.time()\<close> taken inside the loop, \<open>console\<close> is what the loop has
  printed, and \<open>decoded\<close> is a history of every \<^verbatim>\<open>value\<close> the loop has unpacked, in order
  (the program itself keeps only the last one, for the rate line).
\<close>

datatype line = RateLine real nat int | DecodeError exn

record monitor =
  buffer :: "byte list"
  sample_count :: nat
  time_window :: "real list"
  last_print :: real
  clock :: nat
  console :: "line list"
  decoded :: "int list"

definition window_size :: nat where
  "window_size = 1000"

definition init_monitor :: "real \<Rightarrow> monitor" where
  "init_monitor start_time =
     \<lparr>buffer = [], sample_count = 0, time_window = [], last_print = start_time,
      clock = 0, console = [], decoded = []\<rparr>"

text \<open>
  Lines 64 to 66: the rate of the window. With fewer than two timestamps the code
  computes no rate at all and prints nothing.
\<close>

definition rate :: "real list \<Rightarrow> real option" where
  "rate tw =
     (if length tw > 1 then
        (let elapsed = fsub (last tw) (hd tw) in
         Some (if elapsed > 0 then fdiv (real (length tw - 1)) elapsed else 0))
      else None)"

text \<open>Lines 63 to 69: the periodic rate line.\<close>

definition report :: "real \<Rightarrow> int \<Rightarrow> monitor \<Rightarrow> monitor" where
  "report current_time val m =
     (if fsub current_time (last_print m) \<ge> 1 then
        (case rate (time_window m) of
           Some r \<Rightarrow> m\<lparr>console := console m @ [RateLine r (sample_count m) val],
                       last_print := current_time\<rparr>
         | None \<Rightarrow> m\<lparr>last_print := current_time\<rparr>)
      else m)"

text \<open>
  Lines 47 to 69: one pass through the body of the inner \<^verbatim>\<open>while\<close>. The window is cut
  from the buffer before it is decoded, so the \<^verbatim>\<open>continue\<close> of the error branch leaves
  the buffer four bytes shorter as well. The decoder is a parameter; the program's is
  \<open>unpack_i\<close>. \<open>now\<close> gives the clock readings.
\<close>

definition body :: "(byte list \<Rightarrow> exn + int) \<Rightarrow> (nat \<Rightarrow> real) \<Rightarrow> monitor \<Rightarrow> monitor" where
  "body dec now m =
     (let sample = take SAMPLE_SIZE (buffer m);
          m1 = m\<lparr>buffer := drop SAMPLE_SIZE (buffer m)\<rparr>
      in case dec sample of
           Inl e \<Rightarrow> m1\<lparr>console := console m1 @ [DecodeError e]\<rparr>
         | Inr val \<Rightarrow>
             (let current_time = now (clock m1);
                  m2 = m1\<lparr>sample_count := sample_count m1 + 1,
                           clock := Suc (clock m1),
                           time_window := deque_append window_size (time_window m1) current_time,
                           decoded := decoded m1 @ [val]\<rparr>
              in report current_time val m2))"

lemma buffer_report: "buffer (report t v m) = buffer m"
  by (simp add: report_def split: option.splits)

lemma buffer_body: "buffer (body dec now m) = drop SAMPLE_SIZE (buffer m)"
  by (simp add: body_def Let_def buffer_report split: sum.splits)

text \<open>Line 46: the inner \<^verbatim>\<open>while len(buffer) >= SAMPLE_SIZE\<close>.\<close>

function frame_loop :: "(byte list \<Rightarrow> exn + int) \<Rightarrow> (nat \<Rightarrow> real) \<Rightarrow> monitor \<Rightarrow> monitor" where
  "frame_loop dec now m =
     (if length (buffer m) \<ge> SAMPLE_SIZE then frame_loop dec now (body dec now m) else m)"
  by pat_completeness auto
termination
  by (relation "measure (\<lambda>(dec, now, m). length (buffer m))")
     (auto simp: buffer_body SAMPLE_SIZE_def)

declare frame_loop.simps [simp del]

text \<open>
  Lines 41 to 46: one pass through the outer loop, for the bytes \<open>data\<close> that
  \<^verbatim>\<open>ser.read\<close> returned (empty on a timeout).
\<close>

definition iteration :: "(byte list \<Rightarrow> exn + int) \<Rightarrow> (nat \<Rightarrow> real) \<Rightarrow> monitor \<Rightarrow> byte list \<Rightarrow> monitor" where
  "iteration dec now m data =
     (if data \<noteq> [] then frame_loop dec now (m\<lparr>buffer := buffer m @ data\<rparr>) else m)"

definition ingest :: "(nat \<Rightarrow> real) \<Rightarrow> monitor \<Rightarrow> byte list \<Rightarrow> monitor" where
  "ingest now m data = iteration unpack_i now m data"

text \<open>The loop fed with a sequence of reads, from the state before the loop.\<close>

definition feed :: "(nat \<Rightarrow> real) \<Rightarrow> monitor \<Rightarrow> byte list list \<Rightarrow> monitor" where
  "feed now m chunks = foldl (ingest now) m chunks"

text \<open>
  Auxiliary notions for the statements: the last \<open>n\<close> items of a history, a monitor with
  its console output forgotten, and a decoder that rejects one particular window (the
  program's own decoder rejects none).
\<close>

definition keep :: "nat \<Rightarrow> 'a list \<Rightarrow> 'a list" where
  "keep n xs = drop (length xs - n) xs"

definition quiet :: "monitor \<Rightarrow> monitor" where
  "quiet m = m\<lparr>console := []\<rparr>"

definition picky :: "byte list \<Rightarrow> exn + int" where
  "picky w = (if w = [255, 255, 255, 255] then Inl StructError else unpack_i w)"

section \<open>Framing: the loop consumes whole windows, whatever the reads\<close>

lemma frame_loop_short: "length (buffer m) < SAMPLE_SIZE \<Longrightarrow> frame_loop dec now m = m"
  by (simp add: frame_loop.simps)

lemma frame_loop_step:
  "length (buffer m) \<ge> SAMPLE_SIZE \<Longrightarrow> frame_loop dec now m = frame_loop dec now (body dec now m)"
  by (subst frame_loop.simps) simp

lemma buffer_frame_loop_short: "length (buffer (frame_loop dec now m)) < SAMPLE_SIZE"
proof (induction "length (buffer m)" arbitrary: m rule: less_induct)
  case less
  show ?case
  proof (cases "length (buffer m) \<ge> SAMPLE_SIZE")
    case True
    have "length (buffer (body dec now m)) < length (buffer m)"
      using True by (simp add: buffer_body SAMPLE_SIZE_def)
    then show ?thesis using less True by (simp add: frame_loop_step)
  next
    case False
    then show ?thesis by (simp add: frame_loop_short)
  qed
qed

lemma body_append:
  "length xs \<ge> SAMPLE_SIZE \<Longrightarrow>
   body dec now (m\<lparr>buffer := xs @ ys\<rparr>) = (body dec now (m\<lparr>buffer := xs\<rparr>))\<lparr>buffer := drop SAMPLE_SIZE xs @ ys\<rparr>"
  by (simp add: body_def Let_def report_def split: sum.splits option.splits)

lemma frame_loop_append:
  "frame_loop dec now (m\<lparr>buffer := xs @ ys\<rparr>) =
   frame_loop dec now ((frame_loop dec now (m\<lparr>buffer := xs\<rparr>))
      \<lparr>buffer := buffer (frame_loop dec now (m\<lparr>buffer := xs\<rparr>)) @ ys\<rparr>)"
proof (induction "length xs" arbitrary: m xs rule: less_induct)
  case less
  show ?case
  proof (cases "length xs \<ge> SAMPLE_SIZE")
    case True
    define m1 where "m1 = body dec now (m\<lparr>buffer := xs\<rparr>)"
    have b1: "buffer m1 = drop SAMPLE_SIZE xs" by (simp add: m1_def buffer_body)
    have m1': "m1\<lparr>buffer := drop SAMPLE_SIZE xs\<rparr> = m1" using b1 by simp
    have lt: "length (drop SAMPLE_SIZE xs) < length xs" using True by (simp add: SAMPLE_SIZE_def)
    have "frame_loop dec now (m\<lparr>buffer := xs @ ys\<rparr>)
        = frame_loop dec now (m1\<lparr>buffer := drop SAMPLE_SIZE xs @ ys\<rparr>)"
      using True by (simp add: frame_loop_step body_append m1_def)
    also have "\<dots> = frame_loop dec now ((frame_loop dec now (m1\<lparr>buffer := drop SAMPLE_SIZE xs\<rparr>))
      \<lparr>buffer := buffer (frame_loop dec now (m1\<lparr>buffer := drop SAMPLE_SIZE xs\<rparr>)) @ ys\<rparr>)"
      by (rule less [OF lt])
    also have "frame_loop dec now (m1\<lparr>buffer := drop SAMPLE_SIZE xs\<rparr>) = frame_loop dec now (m\<lparr>buffer := xs\<rparr>)"
    proof -
      have "frame_loop dec now (m\<lparr>buffer := xs\<rparr>) = frame_loop dec now m1"
        using True by (simp add: frame_loop_step m1_def)
      then show ?thesis by (simp only: m1')
    qed
    finally show ?thesis .
  next
    case False
    then show ?thesis by (simp add: frame_loop_short)
  qed
qed

lemma iteration_eq:
  "length (buffer m) < SAMPLE_SIZE \<Longrightarrow>
   iteration dec now m data = frame_loop dec now (m\<lparr>buffer := buffer m @ data\<rparr>)"
  by (simp add: iteration_def frame_loop_short)

lemma buffer_iteration_short:
  "length (buffer m) < SAMPLE_SIZE \<Longrightarrow> length (buffer (iteration dec now m data)) < SAMPLE_SIZE"
  by (simp add: iteration_def buffer_frame_loop_short)

lemma iteration_append:
  assumes "length (buffer m) < SAMPLE_SIZE"
  shows "iteration dec now (iteration dec now m xs) ys = iteration dec now m (xs @ ys)"
proof -
  let ?m1 = "frame_loop dec now (m\<lparr>buffer := buffer m @ xs\<rparr>)"
  have s1: "length (buffer ?m1) < SAMPLE_SIZE" by (rule buffer_frame_loop_short)
  have "iteration dec now (iteration dec now m xs) ys = frame_loop dec now (?m1\<lparr>buffer := buffer ?m1 @ ys\<rparr>)"
    using assms s1 by (simp add: iteration_eq)
  also have "\<dots> = frame_loop dec now (m\<lparr>buffer := (buffer m @ xs) @ ys\<rparr>)"
    by (rule frame_loop_append [symmetric])
  also have "\<dots> = iteration dec now m (xs @ ys)"
    using assms by (simp add: iteration_eq)
  finally show ?thesis .
qed

lemma foldl_iteration_concat:
  "length (buffer m) < SAMPLE_SIZE \<Longrightarrow>
   foldl (iteration dec now) m chunks = iteration dec now m (concat chunks)"
proof (induction chunks arbitrary: m)
  case Nil
  then show ?case by (simp add: iteration_def)
next
  case (Cons c cs)
  have "foldl (iteration dec now) m (c # cs) = foldl (iteration dec now) (iteration dec now m c) cs" by simp
  also have "\<dots> = iteration dec now (iteration dec now m c) (concat cs)"
    using Cons.prems by (intro Cons.IH buffer_iteration_short)
  also have "\<dots> = iteration dec now m (concat (c # cs))"
    using Cons.prems by (simp add: iteration_append)
  finally show ?case .
qed

lemma feed_concat: "feed now (init_monitor t0) chunks = ingest now (init_monitor t0) (concat chunks)"
proof -
  have "length (buffer (init_monitor t0)) < SAMPLE_SIZE" by (simp add: init_monitor_def SAMPLE_SIZE_def)
  then have "foldl (iteration unpack_i now) (init_monitor t0) chunks = iteration unpack_i now (init_monitor t0) (concat chunks)"
    by (rule foldl_iteration_concat)
  moreover have "ingest now = iteration unpack_i now" by (rule ext, rule ext) (simp add: ingest_def)
  ultimately show ?thesis by (simp add: feed_def)
qed

section \<open>The decoder\<close>

lemma le_uint_4: "le_uint [a, b, c, d] = uint a + 256 * (uint b + 256 * (uint c + 256 * uint d))"
  by simp

lemma le_uint_bounds: "0 \<le> le_uint bs \<and> le_uint bs < 256 ^ length bs"
proof (induction bs)
  case Nil
  then show ?case by simp
next
  case (Cons b bs)
  have "0 \<le> uint b" "uint b < 256" using uint_lt2p [of b] by simp_all
  with Cons show ?case by simp
qed

lemma unpack_i_4:
  "\<exists>v. unpack_i [a, b, c, d] = Inr v \<and> - (2 ^ 31) \<le> v \<and> v < 2 ^ 31"
proof -
  have "0 \<le> le_uint [a, b, c, d] \<and> le_uint [a, b, c, d] < 256 ^ length [a, b, c, d]"
    by (rule le_uint_bounds)
  then have "0 \<le> le_uint [a, b, c, d]" "le_uint [a, b, c, d] < 2 ^ 32" by simp_all
  then show ?thesis by (simp add: unpack_i_def Let_def del: le_uint.simps)
qed

lemma length_4_cases: "length s = 4 \<Longrightarrow> \<exists>a b c d. s = [a, b, c, d]"
  by (auto simp: length_Suc_conv numeral_eq_Suc)

lemma unpack_i_window:
  assumes "length xs \<ge> SAMPLE_SIZE"
  shows "\<exists>v. unpack_i (take SAMPLE_SIZE xs) = Inr v"
proof -
  have "length (take SAMPLE_SIZE xs) = 4" using assms by (simp add: SAMPLE_SIZE_def)
  then obtain a b c d where "take SAMPLE_SIZE xs = [a, b, c, d]" using length_4_cases by blast
  then show ?thesis using unpack_i_4 [of a b c d] by auto
qed

lemma body_unpack_fields:
  assumes "length (buffer m) \<ge> SAMPLE_SIZE"
  shows "\<exists>v. decoded (body unpack_i now m) = decoded m @ [v]"
    and "clock (body unpack_i now m) = Suc (clock m)"
    and "sample_count (body unpack_i now m) = Suc (sample_count m)"
    and "time_window (body unpack_i now m) = deque_append window_size (time_window m) (now (clock m))"
    and "\<forall>e. DecodeError e \<notin> set (console (body unpack_i now m)) \<longleftrightarrow> DecodeError e \<notin> set (console m)"
proof -
  obtain v where v: "unpack_i (take SAMPLE_SIZE (buffer m)) = Inr v"
    using unpack_i_window [OF assms] by blast
  show "\<exists>v. decoded (body unpack_i now m) = decoded m @ [v]"
    using v by (simp add: body_def Let_def report_def split: option.splits)
  show "clock (body unpack_i now m) = Suc (clock m)"
    using v by (simp add: body_def Let_def report_def split: option.splits)
  show "sample_count (body unpack_i now m) = Suc (sample_count m)"
    using v by (simp add: body_def Let_def report_def split: option.splits)
  show "time_window (body unpack_i now m) = deque_append window_size (time_window m) (now (clock m))"
    using v by (simp add: body_def Let_def report_def split: option.splits)
  show "\<forall>e. DecodeError e \<notin> set (console (body unpack_i now m)) \<longleftrightarrow> DecodeError e \<notin> set (console m)"
    using v by (simp add: body_def Let_def report_def split: option.splits)
qed

lemma deque_append_keep: "deque_append n (keep n xs) x = keep n (xs @ [x])"
proof (cases "length xs < n")
  case True
  then show ?thesis by (simp add: deque_append_def keep_def Let_def)
next
  case False
  then have le: "n \<le> length xs" by simp
  show ?thesis
  proof (cases "n = 0")
    case True
    then show ?thesis by (simp add: deque_append_def keep_def Let_def)
  next
    case False
    with le have "drop (length xs - n) xs \<noteq> []" by simp
    then have "tl (drop (length xs - n) xs @ [x]) = drop (Suc (length xs - n)) xs @ [x]"
      by (simp add: drop_Suc tl_drop)
    moreover have "Suc (length xs) - n = Suc (length xs - n)" using le by simp
    ultimately show ?thesis using le False by (simp add: deque_append_def keep_def Let_def)
  qed
qed

lemma frame_loop_unpack:
  assumes "time_window m = keep window_size hist"
  shows "buffer (frame_loop unpack_i now m) = drop (SAMPLE_SIZE * (length (buffer m) div SAMPLE_SIZE)) (buffer m)
       \<and> clock (frame_loop unpack_i now m) = clock m + length (buffer m) div SAMPLE_SIZE
       \<and> sample_count (frame_loop unpack_i now m) = sample_count m + length (buffer m) div SAMPLE_SIZE
       \<and> length (decoded (frame_loop unpack_i now m)) = length (decoded m) + length (buffer m) div SAMPLE_SIZE
       \<and> time_window (frame_loop unpack_i now m) =
           keep window_size (hist @ map now [clock m ..< clock m + length (buffer m) div SAMPLE_SIZE])
       \<and> (\<forall>e. DecodeError e \<notin> set (console (frame_loop unpack_i now m)) \<longleftrightarrow> DecodeError e \<notin> set (console m))"
  using assms
proof (induction "length (buffer m)" arbitrary: m hist rule: less_induct)
  case less
  show ?case
  proof (cases "length (buffer m) \<ge> SAMPLE_SIZE")
    case True
    let ?m1 = "body unpack_i now m"
    let ?k = "length (buffer ?m1) div SAMPLE_SIZE"
    have lt: "length (buffer ?m1) < length (buffer m)"
      using True by (simp add: buffer_body SAMPLE_SIZE_def)
    have kk: "length (buffer m) div SAMPLE_SIZE = Suc ?k"
      using True by (simp add: buffer_body SAMPLE_SIZE_def le_div_geq)
    have tw: "time_window ?m1 = keep window_size (hist @ [now (clock m)])"
      using body_unpack_fields(4) [OF True] less.prems by (simp add: deque_append_keep)
    note IH = less.hyps [OF lt tw]
    have up: "[clock m ..< clock m + Suc ?k] = clock m # [Suc (clock m) ..< Suc (clock m) + ?k]"
      by (simp add: upt_rec)
    obtain v where v: "decoded ?m1 = decoded m @ [v]" using body_unpack_fields(1) [OF True] by blast
    have dr: "drop (SAMPLE_SIZE * Suc ?k) (buffer m) = drop (SAMPLE_SIZE * ?k) (buffer ?m1)"
      by (simp add: buffer_body add.commute)
    show ?thesis
      unfolding frame_loop_step [OF True] kk up dr
      using IH body_unpack_fields(2,3,5) [OF True] v by simp
  next
    case False
    then have "length (buffer m) div SAMPLE_SIZE = 0" by simp
    with False less.prems show ?thesis by (simp add: frame_loop_short keep_def)
  qed
qed

lemma init_short: "length (buffer (init_monitor t0)) < SAMPLE_SIZE"
  by (simp add: init_monitor_def SAMPLE_SIZE_def)

lemma ingest_init:
  "ingest now (init_monitor t0) data = frame_loop unpack_i now ((init_monitor t0)\<lparr>buffer := data\<rparr>)"
  using iteration_eq [OF init_short, of unpack_i now t0 data]
  by (simp add: ingest_def init_monitor_def)

lemma ingest_init_fields:
  "buffer (ingest now (init_monitor t0) data) = drop (SAMPLE_SIZE * (length data div SAMPLE_SIZE)) data
   \<and> clock (ingest now (init_monitor t0) data) = length data div SAMPLE_SIZE
   \<and> sample_count (ingest now (init_monitor t0) data) = length data div SAMPLE_SIZE
   \<and> length (decoded (ingest now (init_monitor t0) data)) = length data div SAMPLE_SIZE
   \<and> time_window (ingest now (init_monitor t0) data) =
         keep window_size (map now [0 ..< length data div SAMPLE_SIZE])
   \<and> (\<forall>e. DecodeError e \<notin> set (console (ingest now (init_monitor t0) data)))"
proof -
  let ?m = "(init_monitor t0)\<lparr>buffer := data\<rparr>"
  have tw: "time_window ?m = keep window_size []" by (simp add: init_monitor_def keep_def)
  show ?thesis
    using frame_loop_unpack [OF tw, of now]
    by (simp add: ingest_init) (simp add: init_monitor_def)
qed

section \<open>The accumulator, the decoder and the rate window\<close>

text \<open>
  Claim C2. After any sequence of reads fed to the loop of \<^verbatim>\<open>HZanalise.main\<close>, started
  with its empty \<^verbatim>\<open>bytearray\<close>, fewer than \<open>SAMPLE_SIZE\<close> bytes (0 to 3) are left in the
  buffer.
\<close>

theorem accumulator_bounded:
  "length (buffer (feed now (init_monitor t0) chunks)) < SAMPLE_SIZE
   \<and> length (buffer (feed now (init_monitor t0) chunks)) \<le> 3"
proof -
  have "length (buffer (ingest now (init_monitor t0) (concat chunks))) < SAMPLE_SIZE"
    unfolding ingest_def by (rule buffer_iteration_short [OF init_short])
  then show ?thesis by (simp add: feed_concat SAMPLE_SIZE_def)
qed

lemma unpack_i_fails_iff: "isl (unpack_i s) = (length s \<noteq> 4)"
  by (simp add: unpack_i_def Let_def)

text \<open>
  Claim C10. \<^verbatim>\<open>struct.unpack('<i', ...)\<close> succeeds on every four bytes, with a value in the
  signed 32-bit range, and fails exactly on a slice of another length. The loop only ever
  passes it four bytes: whatever the reads, it prints no decode error, and the number of
  decoded values and \<^verbatim>\<open>sample_count\<close> are the number of complete windows received.
\<close>

theorem decode_never_fails:
  "(\<exists>v. unpack_i [a, b, c, d] = Inr v \<and> - (2 ^ 31) \<le> v \<and> v < 2 ^ 31)
   \<and> isl (unpack_i s) = (length s \<noteq> SAMPLE_SIZE)
   \<and> (\<forall>e. DecodeError e \<notin> set (console (feed now (init_monitor t0) chunks)))
   \<and> length (decoded (feed now (init_monitor t0) chunks)) = length (concat chunks) div SAMPLE_SIZE
   \<and> sample_count (feed now (init_monitor t0) chunks) = length (concat chunks) div SAMPLE_SIZE"
  using unpack_i_4 [of a b c d] unpack_i_fails_iff [of s]
    ingest_init_fields [of now t0 "concat chunks"]
  by (simp only: feed_concat SAMPLE_SIZE_def) simp















section \<open>A decode failure costs one window\<close>

lemma quiet_fields [simp]:
  "buffer (quiet m) = buffer m" "decoded (quiet m) = decoded m"
  "sample_count (quiet m) = sample_count m" "time_window (quiet m) = time_window m"
  "clock (quiet m) = clock m" "last_print (quiet m) = last_print m"
  by (simp_all add: quiet_def)

lemma quiet_body: "quiet (body dec now (m\<lparr>console := c\<rparr>)) = quiet (body dec now m)"
  by (simp add: body_def Let_def report_def quiet_def split: sum.splits option.splits)

lemma quiet_body_quiet: "quiet (body dec now m) = quiet (body dec now (quiet m))"
proof -
  have eq: "(quiet m)\<lparr>console := console m\<rparr> = m" by (simp add: quiet_def)
  show ?thesis using quiet_body [of dec now "console m" "quiet m"] by (simp only: eq)
qed

lemma quiet_body': "quiet m = quiet m' \<Longrightarrow> quiet (body dec now m) = quiet (body dec now m')"
proof -
  assume q: "quiet m = quiet m'"
  have "quiet (body dec now m) = quiet (body dec now (quiet m))" by (rule quiet_body_quiet)
  also have "\<dots> = quiet (body dec now (quiet m'))" by (simp only: q)
  also have "\<dots> = quiet (body dec now m')" by (rule quiet_body_quiet [symmetric])
  finally show ?thesis .
qed

lemma quiet_frame_loop:
  "quiet m = quiet m' \<Longrightarrow> quiet (frame_loop dec now m) = quiet (frame_loop dec now m')"
proof (induction "length (buffer m)" arbitrary: m m' rule: less_induct)
  case less
  have "buffer (quiet m') = buffer (quiet m)" by (simp only: less.prems)
  then have beq: "buffer m' = buffer m" by simp
  show ?case
  proof (cases "length (buffer m) \<ge> SAMPLE_SIZE")
    case True
    have lt: "length (buffer (body dec now m)) < length (buffer m)"
      using True by (simp add: buffer_body SAMPLE_SIZE_def)
    have "quiet (frame_loop dec now (body dec now m)) = quiet (frame_loop dec now (body dec now m'))"
      by (rule less.hyps [OF lt quiet_body' [OF less.prems]])
    moreover have "length (buffer m') \<ge> SAMPLE_SIZE" using True beq by simp
    ultimately show ?thesis by (simp only: frame_loop_step [OF True] frame_loop_step [OF \<open>length (buffer m') \<ge> SAMPLE_SIZE\<close>])
  next
    case False
    then have "length (buffer m) < SAMPLE_SIZE" "length (buffer m') < SAMPLE_SIZE" using beq by simp_all
    then show ?thesis using less.prems by (simp only: frame_loop_short)
  qed
qed

lemma body_failure:
  assumes "dec bad = Inl e" "length bad = SAMPLE_SIZE"
  shows "body dec now (m\<lparr>buffer := bad @ post\<rparr>) =
         m\<lparr>buffer := post, console := console m @ [DecodeError e]\<rparr>"
  using assms by (simp add: body_def Let_def)

lemma frame_loop_skip:
  assumes "dec bad = Inl e" "length bad = SAMPLE_SIZE"
  shows "length pre = SAMPLE_SIZE * k \<Longrightarrow>
     quiet (frame_loop dec now (m\<lparr>buffer := pre @ bad @ post\<rparr>)) =
     quiet (frame_loop dec now (m\<lparr>buffer := pre @ post\<rparr>))"
proof (induction k arbitrary: m pre)
  case 0
  then have pre: "pre = []" by simp
  have "frame_loop dec now (m\<lparr>buffer := bad @ post\<rparr>) =
        frame_loop dec now (m\<lparr>buffer := post, console := console m @ [DecodeError e]\<rparr>)"
  proof -
    have "length (buffer (m\<lparr>buffer := bad @ post\<rparr>)) \<ge> SAMPLE_SIZE" using assms(2) by simp
    then show ?thesis by (simp only: frame_loop_step body_failure [of dec bad e, OF assms])
  qed
  moreover have "quiet (m\<lparr>buffer := post, console := console m @ [DecodeError e]\<rparr>) = quiet (m\<lparr>buffer := post\<rparr>)"
    by (simp add: quiet_def)
  ultimately show ?case using pre quiet_frame_loop [of "m\<lparr>buffer := post, console := console m @ [DecodeError e]\<rparr>" "m\<lparr>buffer := post\<rparr>" dec now] by simp
next
  case (Suc k)
  then have len: "length pre \<ge> SAMPLE_SIZE" by simp
  define m1 where "m1 = body dec now (m\<lparr>buffer := pre\<rparr>)"
  have l': "length (drop SAMPLE_SIZE pre) = SAMPLE_SIZE * k" using Suc.prems by simp
  have step: "frame_loop dec now (m\<lparr>buffer := pre @ ys\<rparr>) =
           frame_loop dec now (m1\<lparr>buffer := drop SAMPLE_SIZE pre @ ys\<rparr>)" for ys
  proof -
    have "length (buffer (m\<lparr>buffer := pre @ ys\<rparr>)) \<ge> SAMPLE_SIZE" using len by simp
    then show ?thesis by (simp only: frame_loop_step body_append [OF len] m1_def)
  qed
  note a = step [of "bad @ post"] and b = step [of post]
  show ?case unfolding a b by (rule Suc.IH [OF l'])
qed

lemma picky_run: "decoded (frame_loop picky (\<lambda>k. real k)
        ((init_monitor 0)\<lparr>buffer := [1, 0, 0, 0] @ [2, 0, 0, 0]\<rparr>)) = [1, 2]"
  by code_simp

text \<open>
  Claim C6. Let the decoder fail on the window \<open>bad\<close>. One pass of the loop body over it
  removes exactly these \<open>SAMPLE_SIZE\<close> bytes, reports the error and produces no value,
  count or timestamp. A run over a stream with \<open>bad\<close> at a window boundary ends with the
  same decoded values, sample count, timestamps and leftover bytes as the run over the
  stream without it: every other window is decoded as before, at its own offset.
\<close>

theorem decode_failure_isolated:
  assumes "dec bad = Inl e" and "length bad = SAMPLE_SIZE" and "SAMPLE_SIZE dvd length pre"
  shows "body dec now (m\<lparr>buffer := bad @ post\<rparr>) =
           m\<lparr>buffer := post, console := console m @ [DecodeError e]\<rparr>
       \<and> decoded (frame_loop dec now (m\<lparr>buffer := pre @ bad @ post\<rparr>)) =
           decoded (frame_loop dec now (m\<lparr>buffer := pre @ post\<rparr>))
       \<and> sample_count (frame_loop dec now (m\<lparr>buffer := pre @ bad @ post\<rparr>)) =
           sample_count (frame_loop dec now (m\<lparr>buffer := pre @ post\<rparr>))
       \<and> time_window (frame_loop dec now (m\<lparr>buffer := pre @ bad @ post\<rparr>)) =
           time_window (frame_loop dec now (m\<lparr>buffer := pre @ post\<rparr>))
       \<and> buffer (frame_loop dec now (m\<lparr>buffer := pre @ bad @ post\<rparr>)) =
           buffer (frame_loop dec now (m\<lparr>buffer := pre @ post\<rparr>))"
proof -
  obtain k where k: "length pre = SAMPLE_SIZE * k" using assms(3) by (auto simp: dvd_def)
  have q: "quiet (frame_loop dec now (m\<lparr>buffer := pre @ bad @ post\<rparr>)) =
           quiet (frame_loop dec now (m\<lparr>buffer := pre @ post\<rparr>))"
    by (rule frame_loop_skip [of dec bad e, OF assms(1,2) k])
  have f: "\<And>a b. quiet a = quiet b \<Longrightarrow>
      decoded a = decoded b \<and> sample_count a = sample_count b \<and> time_window a = time_window b \<and> buffer a = buffer b"
  proof -
    fix a b :: monitor
    assume "quiet a = quiet b"
    then have "decoded (quiet a) = decoded (quiet b)" "sample_count (quiet a) = sample_count (quiet b)"
      "time_window (quiet a) = time_window (quiet b)" "buffer (quiet a) = buffer (quiet b)"
      by simp_all
    then show "decoded a = decoded b \<and> sample_count a = sample_count b \<and> time_window a = time_window b \<and> buffer a = buffer b"
      by simp
  qed
  show ?thesis using body_failure [of dec bad e, OF assms(1,2)] f [OF q] by simp
qed

theorem decode_failure_isolated_witness:
  "picky [255, 255, 255, 255] = Inl StructError
   \<and> length [255, 255, 255, 255 :: byte] = SAMPLE_SIZE
   \<and> SAMPLE_SIZE dvd length [1, 0, 0, 0 :: byte]
   \<and> decoded (frame_loop picky (\<lambda>k. real k)
        ((init_monitor 0)\<lparr>buffer := [1, 0, 0, 0] @ [255, 255, 255, 255] @ [2, 0, 0, 0]\<rparr>)) = [1, 2]"
proof -
  have h1: "picky [255, 255, 255, 255] = Inl StructError" by (simp add: picky_def)
  have h2: "length [255, 255, 255, 255 :: byte] = SAMPLE_SIZE" by (simp add: SAMPLE_SIZE_def)
  have h3: "SAMPLE_SIZE dvd length [1, 0, 0, 0 :: byte]" by (simp add: SAMPLE_SIZE_def numeral_eq_Suc)
  show ?thesis
    using decode_failure_isolated [where dec = picky and bad = "[255, 255, 255, 255]"
        and e = StructError and pre = "[1, 0, 0, 0]" and post = "[2, 0, 0, 0]"
        and now = "\<lambda>k. real k" and m = "init_monitor 0", OF h1 h2 h3]
      h1 h2 h3 picky_run
    by simp
qed

section \<open>analisesensordepeso.py: the acquisition window\<close>

text \<open>
  The fields of \<^verbatim>\<open>RealTimePlot\<close> that the acquisition reads and writes, and the part of
  the world it acts on. \<open>in_waiting\<close> holds the bytes in the serial port's input buffer
  (\<^verbatim>\<open>ser.in_waiting\<close> is its length); \<open>ser\<close> and the three timers are \<open>None\<close> while
  the attribute does not exist yet, and otherwise say whether the port is open and the
  timer active. A file object buffers what is written to it: \<open>pending\<close> are the rows not
  yet handed to the operating system, \<open>disk\<close> is what each file holds there. The code
  never calls \<^verbatim>\<open>flush\<close>, so rows reach \<open>disk\<close> when the file is closed (the runtime may
  also write a full buffer out earlier; a row of some thirty bytes does not fill it).
  File names carry the creation time to the second. \<open>status\<close> is the status bar and
  \<open>dialogs\<close> the error boxes shown so far.
\<close>

datatype row = Header | Record real int

record file_obj =
  fname :: int
  is_closed :: bool
  pending :: "row list"

datatype writer = Writer

datatype msg =
    Initialising | SerialConnected | NewFile int | FilterRemoved
  | PlotError exn | CsvCreateError exn | SaveError exn | SerialError exn | InitError exn

record gui =
  start_time :: real
  initial_delay :: real
  ignore_initial_data :: bool
  buffer_size :: nat
  data :: "int list"
  time_values :: "nat list"
  in_waiting :: "byte list"
  ser :: "bool option"
  plot_timer :: "bool option"
  stats_timer :: "bool option"
  file_timer :: "bool option"
  csv_file :: "file_obj option"
  csv_writer :: "writer option"
  file_start_time :: "real option"
  file_duration :: real
  disk :: "int \<Rightarrow> row list option"
  status :: "msg option"
  dialogs :: "msg list"
  accepted :: bool

text \<open>
  What the environment decides when a method runs: the wall-clock reading (of
  \<^verbatim>\<open>time.time()\<close> and of \<^verbatim>\<open>datetime.now()\<close>, whose differences are exact), and whether
  opening the serial port, opening a file, writing the header, writing a record, closing
  a file and closing the port succeed.
\<close>

record env =
  wall :: real
  serial_ok :: bool
  open_ok :: bool
  header_ok :: bool
  write_ok :: bool
  close_ok :: bool
  ser_close_ok :: bool

text \<open>A raised exception leaves the object as it was when it was raised.\<close>

type_synonym outcome = "exn \<times> gui + gui"

definition update_status :: "msg \<Rightarrow> gui \<Rightarrow> gui" where
  "update_status m g = g\<lparr>status := Some m\<rparr>"

definition show_error :: "msg \<Rightarrow> gui \<Rightarrow> gui" where
  "show_error m g = update_status m (g\<lparr>dialogs := dialogs g @ [m]\<rparr>)"

text \<open>
  \<^verbatim>\<open>self.csv_file.close()\<close>: the pending rows are written out and the object is closed;
  closing a closed file does nothing. When the final write fails the object is closed all
  the same and the pending rows are gone.
\<close>

definition file_close :: "env \<Rightarrow> gui \<Rightarrow> outcome" where
  "file_close e g =
     (case csv_file g of
        None \<Rightarrow> Inr g
      | Some f \<Rightarrow>
          if is_closed f then Inr g
          else if close_ok e then
            Inr (g\<lparr>csv_file := Some (f\<lparr>is_closed := True, pending := []\<rparr>),
                   disk := (disk g)(fname f \<mapsto> (case disk g (fname f) of None \<Rightarrow> [] | Some rs \<Rightarrow> rs) @ pending f)\<rparr>)
          else Inl (OSError, g\<lparr>csv_file := Some (f\<lparr>is_closed := True, pending := []\<rparr>)\<rparr>))"

text \<open>
  \<^verbatim>\<open>self.csv_writer.writerow(...)\<close>: the writer wraps the object in \<open>csv_file\<close>. Writing
  to a closed file raises \<^verbatim>\<open>ValueError\<close>.
\<close>

definition writerow :: "bool \<Rightarrow> row \<Rightarrow> gui \<Rightarrow> outcome" where
  "writerow ok r g =
     (case csv_file g of
        None \<Rightarrow> Inl (ValueError, g)
      | Some f \<Rightarrow>
          if is_closed f then Inl (ValueError, g)
          else if ok then Inr (g\<lparr>csv_file := Some (f\<lparr>pending := pending f @ [r]\<rparr>)\<rparr>)
          else Inl (OSError, g))"

text \<open>Lines 132 to 143: the \<^verbatim>\<open>try\<close> block of \<^verbatim>\<open>init_csv_file\<close>.\<close>

definition create_csv :: "env \<Rightarrow> gui \<Rightarrow> outcome" where
  "create_csv e g =
     (case (if csv_file g \<noteq> None then file_close e g else Inr g) of
        Inl r \<Rightarrow> Inl r
      | Inr g1 \<Rightarrow>
          if \<not> open_ok e then Inl (OSError, g1)
          else
            (let f = \<lparr>fname = \<lfloor>wall e\<rfloor>, is_closed = False, pending = []\<rparr>;
                 g2 = g1\<lparr>csv_file := Some f, disk := (disk g1)(fname f \<mapsto> []),
                          csv_writer := Some Writer\<rparr>
             in case writerow (header_ok e) Header g2 of
                  Inl r \<Rightarrow> Inl r
                | Inr g3 \<Rightarrow> Inr (update_status (NewFile (fname f)) (g3\<lparr>file_start_time := Some (wall e)\<rparr>))))"

text \<open>
  Lines 129 to 145: \<^verbatim>\<open>init_csv_file\<close>. Its \<^verbatim>\<open>except Exception\<close> reports every failure of
  the block, so the method itself never raises.
\<close>

definition init_csv_file :: "env \<Rightarrow> gui \<Rightarrow> outcome" where
  "init_csv_file e g =
     (case create_csv e g of
        Inr g' \<Rightarrow> Inr g'
      | Inl (x, g') \<Rightarrow> Inr (show_error (CsvCreateError x) g'))"

text \<open>Lines 182 to 193: \<^verbatim>\<open>save_to_csv\<close>.\<close>

definition save_to_csv :: "env \<Rightarrow> int \<Rightarrow> gui \<Rightarrow> gui" where
  "save_to_csv e sample g =
     (case (if csv_writer g \<noteq> None then writerow (write_ok e) (Record (wall e) sample) g else Inr g) of
        Inr g' \<Rightarrow> g'
      | Inl (x, g1) \<Rightarrow>
          (case init_csv_file e (show_error (SaveError x) g1) of
             Inr g2 \<Rightarrow> g2
           | Inl (x', g2) \<Rightarrow> g2\<lparr>csv_writer := None\<rparr>))"


text \<open>
  Lines 170 and 171: the sample goes to \<^verbatim>\<open>data\<close>, and the length of \<^verbatim>\<open>data\<close> after that
  goes to \<^verbatim>\<open>time_values\<close>; both are deques of \<open>buffer_size\<close> items at most.
\<close>

definition push :: "int \<Rightarrow> gui \<Rightarrow> gui" where
  "push sample g =
     (let d = deque_append (buffer_size g) (data g) sample
      in g\<lparr>data := d, time_values := deque_append (buffer_size g) (time_values g) (length d)\<rparr>)"

text \<open>Lines 166 to 172: the loop over the bytes of one read, from offset \<open>i\<close>.\<close>

function plot_loop :: "env \<Rightarrow> byte list \<Rightarrow> nat \<Rightarrow> gui \<Rightarrow> outcome" where
  "plot_loop e raw_data i g =
     (if i < length raw_data then
        (if i + 4 > length raw_data then Inr g
         else case unpack_i (take 4 (drop i raw_data)) of
                Inl x \<Rightarrow> Inl (x, g)
              | Inr sample \<Rightarrow> plot_loop e raw_data (i + 4) (save_to_csv e sample (push sample g)))
      else Inr g)"
  by pat_completeness auto
termination
  by (relation "measure (\<lambda>(e, raw_data, i, g). length raw_data - i)") auto

declare plot_loop.simps [simp del]

text \<open>
  Reading \<^verbatim>\<open>self.ser.in_waiting\<close>: the attribute must exist and the port be open.
\<close>

definition port :: "gui \<Rightarrow> exn option" where
  "port g = (case ser g of None \<Rightarrow> Some AttributeError | Some False \<Rightarrow> Some SerialException | Some True \<Rightarrow> None)"

text \<open>Lines 150 to 177: the \<^verbatim>\<open>try\<close> block of \<^verbatim>\<open>update_plot\<close>.\<close>

definition process :: "env \<Rightarrow> gui \<Rightarrow> outcome" where
  "process e g =
     (if \<not> ignore_initial_data g then
        (case port g of
           Some x \<Rightarrow> Inl (x, g)
         | None \<Rightarrow>
             if length (in_waiting g) \<ge> 4
             then plot_loop e (in_waiting g) 0 (g\<lparr>in_waiting := []\<rparr>)
             else Inr g)
      else Inr g)"

definition settle :: "env \<Rightarrow> gui \<Rightarrow> outcome" where
  "settle e g =
     (if ignore_initial_data g then
        (if fsub (wall e) (start_time g) \<ge> initial_delay g then
           process e (update_status FilterRemoved (g\<lparr>ignore_initial_data := False\<rparr>))
         else
           (case port g of
              Some x \<Rightarrow> Inl (x, g)
            | None \<Rightarrow> Inr (if length (in_waiting g) \<ge> 4 then g\<lparr>in_waiting := []\<rparr> else g)))
      else process e g)"

text \<open>Lines 147 to 180: \<^verbatim>\<open>update_plot\<close>, run by a timer every 30 ms.\<close>

definition update_plot :: "env \<Rightarrow> gui \<Rightarrow> gui" where
  "update_plot e g =
     (case settle e g of
        Inr g' \<Rightarrow> g'
      | Inl (x, g') \<Rightarrow> update_status (PlotError x) g')"

text \<open>Bytes that the device sends are appended to the port's input buffer.\<close>

definition arrive :: "byte list \<Rightarrow> gui \<Rightarrow> gui" where
  "arrive bs g = g\<lparr>in_waiting := in_waiting g @ bs\<rparr>"

text \<open>
  Lines 243 to 256: \<^verbatim>\<open>closeEvent\<close>. Stopping a timer that was never created raises
  \<^verbatim>\<open>AttributeError\<close>; whatever is raised ends the \<^verbatim>\<open>try\<close> block at that point.
\<close>

definition stop_timers :: "gui \<Rightarrow> outcome" where
  "stop_timers g =
     (case plot_timer g of
        None \<Rightarrow> Inl (AttributeError, g)
      | Some _ \<Rightarrow>
          (let g1 = g\<lparr>plot_timer := Some False\<rparr> in
           case stats_timer g1 of
             None \<Rightarrow> Inl (AttributeError, g1)
           | Some _ \<Rightarrow>
               (let g2 = g1\<lparr>stats_timer := Some False\<rparr> in
                case file_timer g2 of
                  None \<Rightarrow> Inl (AttributeError, g2)
                | Some _ \<Rightarrow> Inr (g2\<lparr>file_timer := Some False\<rparr>))))"

definition close_port :: "env \<Rightarrow> gui \<Rightarrow> outcome" where
  "close_port e g =
     (if ser g = Some True then
        (if ser_close_ok e then Inr (g\<lparr>ser := Some False\<rparr>) else Inl (SerialException, g))
      else Inr g)"

definition closeEvent :: "env \<Rightarrow> gui \<Rightarrow> gui" where
  "closeEvent e g =
     (let r = (case stop_timers g of
                 Inl r \<Rightarrow> Inl r
               | Inr g1 \<Rightarrow>
                   (case close_port e g1 of
                      Inl r \<Rightarrow> Inl r
                    | Inr g2 \<Rightarrow> (if csv_file g2 \<noteq> None then file_close e g2 else Inr g2)));
          g' = (case r of Inl (x, g') \<Rightarrow> g' | Inr g' \<Rightarrow> g')
      in g'\<lparr>accepted := True\<rparr>)"

text \<open>
  Lines 16 to 61: \<^verbatim>\<open>__init__\<close>. The CSV file is created first, outside the \<^verbatim>\<open>try\<close>;
  the serial port and then the timers are set up inside it, and a failure there shows the
  error and closes the window, which runs \<^verbatim>\<open>closeEvent\<close>.
\<close>

definition setup_file_system :: "env \<Rightarrow> gui \<Rightarrow> gui" where
  "setup_file_system e g =
     (case init_csv_file e (g\<lparr>csv_file := None, csv_writer := None, file_start_time := None,
                               file_duration := 30 * 60\<rparr>) of
        Inr g' \<Rightarrow> g' | Inl (x, g') \<Rightarrow> g')"

definition setup_serial :: "env \<Rightarrow> gui \<Rightarrow> outcome" where
  "setup_serial e g =
     (if serial_ok e then Inr (update_status SerialConnected (g\<lparr>ser := Some True, in_waiting := []\<rparr>))
      else Inl (SerialException, show_error (SerialError SerialException) g))"

definition setup_timers :: "gui \<Rightarrow> gui" where
  "setup_timers g = g\<lparr>plot_timer := Some True, stats_timer := Some True, file_timer := Some True\<rparr>"

definition blank :: gui where
  "blank = \<lparr>start_time = 0, initial_delay = 0, ignore_initial_data = False, buffer_size = 0,
            data = [], time_values = [], in_waiting = [], ser = None, plot_timer = None,
            stats_timer = None, file_timer = None, csv_file = None, csv_writer = None,
            file_start_time = None, file_duration = 0, disk = (\<lambda>n. None), status = None,
            dialogs = [], accepted = False\<rparr>"

definition init :: "env \<Rightarrow> gui" where
  "init e =
     (let g0 = blank\<lparr>start_time := wall e, initial_delay := 3, ignore_initial_data := True\<rparr>;
          g1 = setup_file_system e g0;
          g2 = g1\<lparr>buffer_size := 2000, data := [], time_values := []\<rparr>
      in case setup_serial e g2 of
           Inr g3 \<Rightarrow> update_status Initialising (setup_timers g3)
         | Inl (x, g3) \<Rightarrow> closeEvent e (show_error (InitError x) g3))"

definition fine :: "real \<Rightarrow> env" where
  "fine t = \<lparr>wall = t, serial_ok = True, open_ok = True, header_ok = True, write_ok = True,
             close_ok = True, ser_close_ok = True\<rparr>"

definition pushes :: "int list \<Rightarrow> gui \<Rightarrow> gui" where
  "pushes xs g = foldl (\<lambda>g x. push x g) g xs"

text \<open>The window once the settle delay has passed, with nothing received yet.\<close>

definition running :: gui where
  "running = update_plot (fine 3) (init (fine 0))"


section \<open>Reads that do not end on a sample boundary\<close>

text \<open>
  Claim C1, at \<^verbatim>\<open>update_plot\<close>. The loop of \<^verbatim>\<open>HZanalise.main\<close> keeps the bytes of an
  incomplete sample for the next read (\<open>feed_concat\<close> above: any split of a stream
  gives the state that one read of the whole stream gives). \<^verbatim>\<open>update_plot\<close> keeps
  nothing: it frames each read on its own and drops the bytes after the last complete
  window. Eight bytes encoding 1 and 2 give [1, 2] when read at once; read as five bytes
  and then three, they give [1], the fifth byte is gone, and the next sample that
  arrives is decoded across the boundary as 50331648.
\<close>

theorem update_plot_drops_partial_window:
  "feed now (init_monitor t0) chunks = ingest now (init_monitor t0) (concat chunks)
   \<and> data (update_plot (fine 4) (arrive [1, 0, 0, 0, 2, 0, 0, 0] running)) = [1, 2]
   \<and> data (update_plot (fine 4) (arrive [1, 0, 0, 0, 2] running)) = [1]
   \<and> in_waiting (update_plot (fine 4) (arrive [1, 0, 0, 0, 2] running)) = []
   \<and> data (update_plot (fine 5) (arrive [0, 0, 0]
        (update_plot (fine 4) (arrive [1, 0, 0, 0, 2] running)))) = [1]
   \<and> data (update_plot (fine 6) (arrive [3, 0, 0, 0] (update_plot (fine 5) (arrive [0, 0, 0]
        (update_plot (fine 4) (arrive [1, 0, 0, 0, 2] running)))))) = [1, 50331648]"
proof -
  have run: "data (update_plot (fine 4) (arrive [1, 0, 0, 0, 2, 0, 0, 0] running)) = [1, 2]
   \<and> data (update_plot (fine 4) (arrive [1, 0, 0, 0, 2] running)) = [1]
   \<and> in_waiting (update_plot (fine 4) (arrive [1, 0, 0, 0, 2] running)) = []
   \<and> data (update_plot (fine 5) (arrive [0, 0, 0]
        (update_plot (fine 4) (arrive [1, 0, 0, 0, 2] running)))) = [1]
   \<and> data (update_plot (fine 6) (arrive [3, 0, 0, 0] (update_plot (fine 5) (arrive [0, 0, 0]
        (update_plot (fine 4) (arrive [1, 0, 0, 0, 2] running)))))) = [1, 50331648]"
    by code_simp
  show ?thesis using feed_concat [of now t0 chunks] run by (simp only: simp_thms)
qed

section \<open>The settle delay\<close>

text \<open>
  Claim C4, at its failing input. During the settle delay \<^verbatim>\<open>update_plot\<close> empties the
  port only when at least four bytes are waiting. Three bytes that arrive one second
  after the start stay in the port; with the byte that arrives after the delay they are
  framed into the sample 1. (Four bytes arriving at that time are discarded.)
\<close>

theorem settle_keeps_short_input:
  "ignore_initial_data (update_plot (fine 1) (arrive [1, 0, 0] (init (fine 0))))
   \<and> in_waiting (update_plot (fine 1) (arrive [1, 0, 0] (init (fine 0)))) = [1, 0, 0]
   \<and> data (update_plot (fine 4) (arrive [0]
        (update_plot (fine 1) (arrive [1, 0, 0] (init (fine 0)))))) = [1]
   \<and> in_waiting (update_plot (fine 1) (arrive [1, 0, 0, 0] (init (fine 0)))) = []"
  by code_simp

section \<open>The rolling buffer\<close>

lemma push_fields:
  "buffer_size (push x g) = buffer_size g"
  "data (push x g) = deque_append (buffer_size g) (data g) x"
  "time_values (push x g) =
     deque_append (buffer_size g) (time_values g) (length (deque_append (buffer_size g) (data g) x))"
  by (simp_all add: push_def Let_def)

lemma pushes_snoc: "pushes (xs @ [x]) g = push x (pushes xs g)"
  by (simp add: pushes_def)

lemma length_keep': "length (keep n xs) = min n (length xs)"
  by (simp add: keep_def)

lemma pushes_fields:
  assumes "data g = []" and "time_values g = []"
  shows "buffer_size (pushes xs g) = buffer_size g
       \<and> data (pushes xs g) = keep (buffer_size g) xs
       \<and> time_values (pushes xs g) =
           keep (buffer_size g) (map (\<lambda>i. min (Suc i) (buffer_size g)) [0 ..< length xs])"
proof (induction xs rule: rev_induct)
  case Nil
  then show ?case using assms by (simp add: pushes_def keep_def)
next
  case (snoc x xs)
  let ?c = "buffer_size g"
  have d: "data (pushes (xs @ [x]) g) = keep ?c (xs @ [x])"
    using snoc by (simp add: pushes_snoc push_fields deque_append_keep)
  have l: "length (keep ?c (xs @ [x])) = min (Suc (length xs)) ?c"
    by (simp add: length_keep' min.commute)
  have "time_values (pushes (xs @ [x]) g) =
        deque_append ?c (keep ?c (map (\<lambda>i. min (Suc i) ?c) [0 ..< length xs])) (min (Suc (length xs)) ?c)"
    using snoc l by (simp add: pushes_snoc push_fields deque_append_keep)
  also have "\<dots> = keep ?c (map (\<lambda>i. min (Suc i) ?c) [0 ..< length xs] @ [min (Suc (length xs)) ?c])"
    by (rule deque_append_keep)
  also have "\<dots> = keep ?c (map (\<lambda>i. min (Suc i) ?c) [0 ..< length (xs @ [x])])"
    by simp
  finally show ?case using snoc d by (simp add: pushes_snoc push_fields)
qed

lemma init_buffer: "buffer_size (init e) = 2000 \<and> data (init e) = [] \<and> time_values (init e) = []"
proof -
  have ce: "\<And>e g. buffer_size (closeEvent e g) = buffer_size g \<and> data (closeEvent e g) = data g
                 \<and> time_values (closeEvent e g) = time_values g"
    by (auto simp: closeEvent_def Let_def stop_timers_def close_port_def file_close_def
        split: sum.splits option.splits if_splits prod.splits)
  show ?thesis
    by (auto simp: init_def Let_def setup_serial_def setup_timers_def update_status_def
        show_error_def ce split: sum.splits prod.splits if_splits)
qed

lemma pushes_init:
  "data (pushes xs (init e)) = keep 2000 xs
   \<and> time_values (pushes xs (init e)) = keep 2000 (map (\<lambda>i. min (Suc i) 2000) [0 ..< length xs])
   \<and> length (data (pushes xs (init e))) = length (time_values (pushes xs (init e)))"
proof -
  have a: "data (init e) = []" and b: "time_values (init e) = []" and c: "buffer_size (init e) = 2000"
    using init_buffer [of e] by simp_all
  have f: "data (pushes xs (init e)) = keep 2000 xs
   \<and> time_values (pushes xs (init e)) = keep 2000 (map (\<lambda>i. min (Suc i) 2000) [0 ..< length xs])"
    using pushes_fields [OF a b, of xs] by (simp only: c)
  then show ?thesis by (simp add: length_keep')
qed

lemma keep_overflow:
  assumes "K \<le> c"
  shows "keep c (map (\<lambda>i. min (Suc i) c) [0 ..< c + K]) = [Suc K ..< Suc c] @ replicate K c"
proof (rule nth_equalityI)
  show "length (keep c (map (\<lambda>i. min (Suc i) c) [0 ..< c + K])) = length ([Suc K ..< Suc c] @ replicate K c)"
    using assms by (simp add: length_keep')
next
  fix i
  assume "i < length (keep c (map (\<lambda>i. min (Suc i) c) [0 ..< c + K]))"
  then have i: "i < c" by (simp add: length_keep')
  have "keep c (map (\<lambda>i. min (Suc i) c) [0 ..< c + K]) ! i = min (Suc (K + i)) c"
    using i by (simp add: keep_def)
  moreover have "([Suc K ..< Suc c] @ replicate K c) ! i = min (Suc (K + i)) c"
    using i assms by (auto simp: nth_append)
  ultimately show "keep c (map (\<lambda>i. min (Suc i) c) [0 ..< c + K]) ! i = ([Suc K ..< Suc c] @ replicate K c) ! i"
    by simp
qed

lemma small_axis:
  "data (update_plot (fine 4) (arrive [1, 0, 0, 0, 2, 0, 0, 0] running)) = data (pushes [1, 2] running)
   \<and> time_values (update_plot (fine 4) (arrive [1, 0, 0, 0, 2, 0, 0, 0] running)) = time_values (pushes [1, 2] running)"
  by code_simp

text \<open>
  Claim C5, at its failing input. After any pushes the values kept are the last 2000
  pushed, in order, and the index axis has the same length. The index stored with a
  sample is the length of \<^verbatim>\<open>data\<close> after its push, which stays at 2000 once the buffer
  is full: after 2001 pushes the axis is 2, ..., 2000, 2000 and not the sample numbers
  2, ..., 2001. (\<^verbatim>\<open>update_plot\<close> pushes each sample it frames: for two samples it leaves
  the values and the axis that two pushes leave.)
\<close>

theorem index_axis_saturates:
  "data (pushes xs (init e)) = keep 2000 xs
   \<and> time_values (pushes xs (init e)) = keep 2000 (map (\<lambda>i. min (Suc i) 2000) [0 ..< length xs])
   \<and> length (data (pushes xs (init e))) = length (time_values (pushes xs (init e)))
   \<and> time_values (pushes (replicate 2001 7) (init e)) = [2 ..< 2001] @ [2000]
   \<and> time_values (pushes (replicate 2001 7) (init e)) \<noteq> [2 ..< 2002]
   \<and> data (update_plot (fine 4) (arrive [1, 0, 0, 0, 2, 0, 0, 0] running)) = data (pushes [1, 2] running)
   \<and> time_values (update_plot (fine 4) (arrive [1, 0, 0, 0, 2, 0, 0, 0] running)) = time_values (pushes [1, 2] running)"
proof -
  have k: "keep 2000 (map (\<lambda>i. min (Suc i) 2000) [0 ..< 2000 + 1]) = [Suc 1 ..< Suc 2000] @ replicate 1 2000"
    by (rule keep_overflow) simp
  have l: "length (replicate 2001 (7 :: int)) = 2000 + 1" by simp
  have t: "time_values (pushes (replicate 2001 7) (init e)) = [Suc 1 ..< Suc 2000] @ replicate 1 2000"
    using pushes_init [of "replicate 2001 7" e] by (simp only: l k)
  have s: "Suc 1 = 2" "Suc 2000 = 2001" by simp_all
  have r: "replicate 1 (2000 :: nat) = [2000]" by simp
  have e1: "[Suc 1 ..< Suc 2000] @ replicate 1 2000 = [2 ..< 2001] @ [2000 :: nat]"
    by (simp only: s r)
  have l1: "last ([2 ..< 2001] @ [2000 :: nat]) = 2000" by (simp del: upt_rec_numeral)
  have l2: "last [2 ..< 2002 :: nat] = 2001"
  proof -
    have "[2 ..< 2002 :: nat] = [2 ..< 2001] @ [2001]"
      using upt_Suc_append [of 2 2001] by (simp del: upt_rec_numeral upt_Suc)
    then show ?thesis by (simp del: upt_rec_numeral)
  qed
  have ne: "[2 ..< 2001] @ [2000 :: nat] \<noteq> [2 ..< 2002]"
  proof
    assume "[2 ..< 2001] @ [2000 :: nat] = [2 ..< 2002]"
    then have "last ([2 ..< 2001] @ [2000 :: nat]) = last [2 ..< 2002]" by (simp only:)
    then have "(2000 :: nat) = 2001" unfolding l1 l2 .
    then show False by simp
  qed
  have t': "time_values (pushes (replicate 2001 7) (init e)) = [2 ..< 2001] @ [2000]"
    using t e1 by (simp only:)
  have ne': "time_values (pushes (replicate 2001 7) (init e)) \<noteq> [2 ..< 2002]"
    unfolding t' by (rule ne)
  show ?thesis using pushes_init [of xs e] t' ne' small_axis by blast
qed

section \<open>The CSV sink\<close>

lemma init_csv_file_returns: "\<exists>g'. init_csv_file e g = Inr g'"
  by (simp add: init_csv_file_def split: sum.splits prod.splits)

lemma csv_writer_file_close:
  "file_close e g = Inr g' \<Longrightarrow> csv_writer g' = csv_writer g"
  "file_close e g = Inl (x, g') \<Longrightarrow> csv_writer g' = csv_writer g"
  by (auto simp: file_close_def split: option.splits if_splits)

lemma csv_writer_writerow:
  "writerow ok r g = Inr g' \<Longrightarrow> csv_writer g' = csv_writer g"
  "writerow ok r g = Inl (x, g') \<Longrightarrow> csv_writer g' = csv_writer g"
  by (auto simp: writerow_def split: option.splits if_splits)

lemma csv_writer_create_csv:
  "csv_writer g = Some Writer \<Longrightarrow> create_csv e g = Inr g' \<Longrightarrow> csv_writer g' = Some Writer"
  "csv_writer g = Some Writer \<Longrightarrow> create_csv e g = Inl (x, g') \<Longrightarrow> csv_writer g' = Some Writer"
  by (auto simp: create_csv_def Let_def update_status_def
      split: sum.splits if_splits prod.splits dest: csv_writer_file_close csv_writer_writerow)

lemma csv_writer_init_csv_file:
  "csv_writer g = Some Writer \<Longrightarrow> init_csv_file e g = Inr g' \<Longrightarrow> csv_writer g' = Some Writer"
  by (auto simp: init_csv_file_def show_error_def update_status_def
      split: sum.splits prod.splits dest: csv_writer_create_csv)

lemma save_to_csv_keeps_writer: "(csv_writer (save_to_csv e s g) = None) = (csv_writer g = None)"
proof (cases "csv_writer g")
  case None
  then show ?thesis by (simp add: save_to_csv_def)
next
  case (Some w)
  then have W: "csv_writer g = Some Writer" by (cases w) simp
  show ?thesis
  proof (cases "writerow (write_ok e) (Record (wall e) s) g")
    case (Inr g')
    then show ?thesis using W csv_writer_writerow(1) [OF Inr] by (simp add: save_to_csv_def)
  next
    case (Inl r)
    obtain x g1 where r: "r = (x, g1)" by (cases r)
    have w1: "csv_writer g1 = Some Writer"
      using csv_writer_writerow(2) [of _ _ g x g1] Inl r W by simp
    then have w2: "csv_writer (show_error (SaveError x) g1) = Some Writer"
      by (simp add: show_error_def update_status_def)
    obtain g2 where g2: "init_csv_file e (show_error (SaveError x) g1) = Inr g2"
      using init_csv_file_returns by blast
    have "csv_writer g2 = Some Writer" by (rule csv_writer_init_csv_file [OF w2 g2])
    then show ?thesis using W Inl r g2 by (simp add: save_to_csv_def)
  qed
qed

text \<open>
  Claim C7, at its failing input. \<^verbatim>\<open>save_to_csv\<close> never leaves a sink that had a writer
  without one: \<^verbatim>\<open>init_csv_file\<close> reports its own failures and never raises, so the
  branch that would disable the sink is not reached. When a write fails and the new file
  cannot be created, the writer stays, on the closed file; the next sample fails again
  and shows two more error boxes. The samples still reach the rolling buffer.
\<close>

theorem sink_never_disabled:
  "(csv_writer (save_to_csv e s g) = None) = (csv_writer g = None)
 \<and> csv_writer (update_plot ((fine 10)\<lparr>write_ok := False, open_ok := False\<rparr>) (arrive [1, 0, 0, 0] running)) = Some Writer
 \<and> dialogs (update_plot ((fine 10)\<lparr>write_ok := False, open_ok := False\<rparr>) (arrive [1, 0, 0, 0] running))
      = [SaveError OSError, CsvCreateError OSError]
 \<and> dialogs (update_plot ((fine 11)\<lparr>open_ok := False\<rparr>) (arrive [2, 0, 0, 0]
       (update_plot ((fine 10)\<lparr>write_ok := False, open_ok := False\<rparr>) (arrive [1, 0, 0, 0] running))))
      = [SaveError OSError, CsvCreateError OSError, SaveError ValueError, CsvCreateError OSError]
 \<and> data (update_plot ((fine 11)\<lparr>open_ok := False\<rparr>) (arrive [2, 0, 0, 0]
       (update_plot ((fine 10)\<lparr>write_ok := False, open_ok := False\<rparr>) (arrive [1, 0, 0, 0] running))))
      = [1, 2]"
proof -
  have run: "csv_writer (update_plot ((fine 10)\<lparr>write_ok := False, open_ok := False\<rparr>) (arrive [1, 0, 0, 0] running)) = Some Writer
 \<and> dialogs (update_plot ((fine 10)\<lparr>write_ok := False, open_ok := False\<rparr>) (arrive [1, 0, 0, 0] running))
      = [SaveError OSError, CsvCreateError OSError]
 \<and> dialogs (update_plot ((fine 11)\<lparr>open_ok := False\<rparr>) (arrive [2, 0, 0, 0]
       (update_plot ((fine 10)\<lparr>write_ok := False, open_ok := False\<rparr>) (arrive [1, 0, 0, 0] running))))
      = [SaveError OSError, CsvCreateError OSError, SaveError ValueError, CsvCreateError OSError]
 \<and> data (update_plot ((fine 11)\<lparr>open_ok := False\<rparr>) (arrive [2, 0, 0, 0]
       (update_plot ((fine 10)\<lparr>write_ok := False, open_ok := False\<rparr>) (arrive [1, 0, 0, 0] running))))
      = [1, 2]"
    by code_simp
  show ?thesis using save_to_csv_keeps_writer [of e s g] run by (simp only: simp_thms)
qed








section \<open>Closing the window\<close>

text \<open>
  Claim C9, at its failing inputs. When the serial port cannot be opened, \<^verbatim>\<open>__init__\<close>
  closes the window before the timers exist: \<^verbatim>\<open>closeEvent\<close> stops at the first timer
  and the CSV file, created before, stays open with its header unwritten. When closing
  the port fails, the file stays open as well, and so does the port. When nothing fails,
  both are closed.
\<close>

theorem close_leaves_file_open:
  "accepted (init ((fine 0)\<lparr>serial_ok := False\<rparr>))
   \<and> csv_file (init ((fine 0)\<lparr>serial_ok := False\<rparr>)) = Some \<lparr>fname = 0, is_closed = False, pending = [Header]\<rparr>
   \<and> disk (init ((fine 0)\<lparr>serial_ok := False\<rparr>)) 0 = Some []
   \<and> csv_file (closeEvent ((fine 9)\<lparr>ser_close_ok := False\<rparr>) (init (fine 0))) = Some \<lparr>fname = 0, is_closed = False, pending = [Header]\<rparr>
   \<and> ser (closeEvent ((fine 9)\<lparr>ser_close_ok := False\<rparr>) (init (fine 0))) = Some True
   \<and> csv_file (closeEvent (fine 9) (init (fine 0))) = Some \<lparr>fname = 0, is_closed = True, pending = []\<rparr>
   \<and> ser (closeEvent (fine 9) (init (fine 0))) = Some False"
  by code_simp

end
